theory Spec2Isabelle
  imports Complex_Main
begin

section \<open>Data model (types/chart.ts)\<close>

text \<open>
  The two interfaces of \<^verbatim>\<open>types/chart.ts\<close>. Prices and volumes are TypeScript
  \<^verbatim>\<open>number\<close>s, that is IEEE-754 doubles; a finite double is modelled by its value, a
  \<^typ>\<open>real\<close>, and the predicate \<open>is_double\<close> below says which reals are values of
  doubles. The time stamp is an integer number of seconds.
\<close>

record KlineData =
  time :: int
  "open" :: real
  high :: real
  close :: real
  low :: real
  volume :: real

datatype SignalType = Support | Resistance

record BreakoutSignal =
  time :: int
  type :: SignalType
  price :: real
  confirmed :: bool

section \<open>The JavaScript values and built-ins the detector uses\<close>

text \<open>
  \<^verbatim>\<open>Math.max()\<close> of no arguments is \<^verbatim>\<open>-Infinity\<close> and \<^verbatim>\<open>Math.min()\<close> is
  \<^verbatim>\<open>Infinity\<close>, so the two levels computed from a window are numbers that may be infinite.
  Every comparison with \<open>NaN\<close> is false.
\<close>

datatype num = NaN | NegInfinity | Finite real | Infinity

fun num_gt :: "num \<Rightarrow> num \<Rightarrow> bool" where
  "num_gt NaN _ = False"
| "num_gt _ NaN = False"
| "num_gt NegInfinity _ = False"
| "num_gt (Finite x) NegInfinity = True"
| "num_gt (Finite x) (Finite y) = (x > y)"
| "num_gt (Finite x) Infinity = False"
| "num_gt Infinity Infinity = False"
| "num_gt Infinity _ = True"

definition num_lt :: "num \<Rightarrow> num \<Rightarrow> bool" where
  "num_lt a b = num_gt b a"

text \<open>
  Arithmetic on doubles rounds: the result of an operation is the double nearest to the
  exact result, a tie going to the even significand (\<^verbatim>\<open>roundTiesToEven\<close>). A double
  has a significand of 53 bits, the exponent of its last bit lies between -1074 and 971,
  and a rounded magnitude of \<open>2 ^ 1024\<close> or more overflows to an infinity.
\<close>

definition round_ties_even :: "real \<Rightarrow> int" where
  "round_ties_even q =
     (let f = \<lfloor>q\<rfloor>; r = q - of_int f
      in if r < 1/2 then f else if 1/2 < r then f + 1 else if even f then f else f + 1)"

text \<open>
  The binary exponent of a magnitude \<open>y * 2 ^ e\<close>, found by halving or doubling \<open>y\<close> into
  the interval from 1 to 2 and kept within the exponents of normal doubles.
\<close>

function binary_exponent :: "real \<Rightarrow> int \<Rightarrow> int" where
  "binary_exponent y e =
     (if 2 \<le> y \<and> e < 1023 then binary_exponent (y / 2) (e + 1)
      else if y < 1 \<and> -1022 < e then binary_exponent (y * 2) (e - 1)
      else e)"
  by pat_completeness auto
termination
  by (relation "measure (\<lambda>(y, e). if 2 \<le> y \<and> e < 1023 then nat (1023 - e)
                                   else if y < 1 \<and> -1022 < e then nat (e + 1022) else 0)")
     auto

declare binary_exponent.simps [simp del]

text \<open>The exponent of the last bit of the significand of the double nearest to \<open>z\<close>.\<close>

definition ulp_exponent :: "real \<Rightarrow> int" where
  "ulp_exponent z = binary_exponent \<bar>z\<bar> 0 - 52"

definition double_of_real :: "real \<Rightarrow> num" where
  "double_of_real z =
     (let e = ulp_exponent z;
          v = of_int (round_ties_even (z / 2 powi e)) * 2 powi e
      in if 2 powi 1024 \<le> v then Infinity
         else if v \<le> - (2 powi 1024) then NegInfinity
         else Finite v)"

definition is_double :: "real \<Rightarrow> bool" where
  "is_double x \<longleftrightarrow> double_of_real x = Finite x"

text \<open>
  The product \<^verbatim>\<open>a * b\<close> of two numbers: the exact product of two finite doubles,
  rounded; an infinity times zero is \<open>NaN\<close>. (The sign of a zero is not modelled: no
  comparison sees it.)
\<close>

fun num_times :: "num \<Rightarrow> num \<Rightarrow> num" where
  "num_times NaN _ = NaN"
| "num_times _ NaN = NaN"
| "num_times (Finite x) (Finite y) = double_of_real (x * y)"
| "num_times (Finite x) Infinity =
     (if 0 < x then Infinity else if x < 0 then NegInfinity else NaN)"
| "num_times (Finite x) NegInfinity =
     (if 0 < x then NegInfinity else if x < 0 then Infinity else NaN)"
| "num_times Infinity (Finite y) =
     (if 0 < y then Infinity else if y < 0 then NegInfinity else NaN)"
| "num_times NegInfinity (Finite y) =
     (if 0 < y then NegInfinity else if y < 0 then Infinity else NaN)"
| "num_times Infinity Infinity = Infinity"
| "num_times Infinity NegInfinity = NegInfinity"
| "num_times NegInfinity Infinity = NegInfinity"
| "num_times NegInfinity NegInfinity = Infinity"

text \<open>\<^verbatim>\<open>Math.max(...xs)\<close>: the running maximum starts at \<^verbatim>\<open>-Infinity\<close>.\<close>

fun num_max :: "num \<Rightarrow> real \<Rightarrow> num" where
  "num_max NaN x = NaN"
| "num_max NegInfinity x = Finite x"
| "num_max (Finite m) x = Finite (max m x)"
| "num_max Infinity x = Infinity"

fun num_min :: "num \<Rightarrow> real \<Rightarrow> num" where
  "num_min NaN x = NaN"
| "num_min NegInfinity x = NegInfinity"
| "num_min (Finite m) x = Finite (min m x)"
| "num_min Infinity x = Finite x"

definition Math_max :: "real list \<Rightarrow> num" where
  "Math_max xs = foldl num_max NegInfinity xs"

definition Math_min :: "real list \<Rightarrow> num" where
  "Math_min xs = foldl num_min Infinity xs"

text \<open>
  \<^verbatim>\<open>xs.slice(start, end)\<close>: a negative bound counts from the end, and both bounds are
  clamped to the array, so a slice never reads outside it.
\<close>

definition relative_index :: "int \<Rightarrow> int \<Rightarrow> nat" where
  "relative_index len k = (if k < 0 then nat (max (len + k) 0) else nat (min k len))"

definition slice :: "'a list \<Rightarrow> int \<Rightarrow> int \<Rightarrow> 'a list" where
  "slice xs start end =
     (let len = int (length xs);
          k = relative_index len start;
          final = relative_index len end
      in take (final - k) (drop k xs))"

text \<open>
  \<^verbatim>\<open>xs[i]\<close>: an index outside the array yields \<^verbatim>\<open>undefined\<close> (here \<open>None\<close>), and
  reading a property of \<^verbatim>\<open>undefined\<close> throws a \<^verbatim>\<open>TypeError\<close>.
\<close>

definition index :: "'a list \<Rightarrow> int \<Rightarrow> 'a option" where
  "index xs i = (if 0 \<le> i \<and> i < int (length xs) then Some (xs ! nat i) else None)"

datatype error = TypeError

section \<open>The detector (utils/technical.ts)\<close>

text \<open>
  The body of the \<^verbatim>\<open>for\<close> loop of \<^verbatim>\<open>detectBreakout\<close> at index \<open>i\<close>: the signals it
  pushes, in the order it pushes them, or the error it throws. The literals \<^verbatim>\<open>1.002\<close>
  and \<^verbatim>\<open>0.998\<close> denote the doubles nearest to these decimals.
\<close>

definition loopBody :: "KlineData list \<Rightarrow> int \<Rightarrow> int \<Rightarrow> error + BreakoutSignal list" where
  "loopBody candles period i =
     (let windowCandles = slice candles (i - period) i;
          highs = map high windowCandles;
          lows = map low windowCandles;
          resistanceLevel = Math_max highs;
          supportLevel = Math_min lows
      in case index candles i of
           None \<Rightarrow> Inl TypeError
         | Some currentCandle \<Rightarrow>
             Inr ((if num_gt (Finite (close currentCandle)) (num_times resistanceLevel (double_of_real 1.002))
                   then [\<lparr>time = KlineData.time currentCandle,
                          type = Resistance,
                          price = close currentCandle,
                          confirmed = (num_gt (Finite (close currentCandle)) resistanceLevel \<and>
                                       num_gt (Finite (open currentCandle)) resistanceLevel)\<rparr>]
                   else []) @
                  (if num_lt (Finite (close currentCandle)) (num_times supportLevel (double_of_real 0.998))
                   then [\<lparr>time = KlineData.time currentCandle,
                          type = Support,
                          price = close currentCandle,
                          confirmed = (num_lt (Finite (close currentCandle)) supportLevel \<and>
                                       num_lt (Finite (open currentCandle)) supportLevel)\<rparr>]
                   else [])))"

text \<open>The loop \<^verbatim>\<open>for (let i = period; i < candles.length; i++)\<close>, from index \<open>i\<close> on.\<close>

function loop :: "KlineData list \<Rightarrow> int \<Rightarrow> int \<Rightarrow> BreakoutSignal list
    \<Rightarrow> error + BreakoutSignal list" where
  "loop candles period i signals =
     (if i < int (length candles)
      then (case loopBody candles period i of
              Inl e \<Rightarrow> Inl e
            | Inr pushed \<Rightarrow> loop candles period (i + 1) (signals @ pushed))
      else Inr signals)"
  by pat_completeness auto
termination
  by (relation "measure (\<lambda>(candles, period, i, signals). nat (int (length candles) - i))") auto

declare loop.simps [simp del]

definition detectBreakout :: "KlineData list \<Rightarrow> int \<Rightarrow> error + BreakoutSignal list" where
  "detectBreakout candles period =
     (if int (length candles) < period then Inr [] else loop candles period period [])"

text \<open>The signals pushed while the loop is at index \<open>i\<close> (none when the body throws).\<close>

definition emitted :: "KlineData list \<Rightarrow> int \<Rightarrow> nat \<Rightarrow> BreakoutSignal list" where
  "emitted candles period i =
     (case loopBody candles period (int i) of Inl e \<Rightarrow> [] | Inr pushed \<Rightarrow> pushed)"

section \<open>The specification's vocabulary\<close>

text \<open>
  The baseline window of index \<open>i\<close> is the candles at the indices \<open>i - window, \<dots>, i - 1\<close>;
  the resistance is the maximum high over it and the support the minimum low. These
  three definitions follow the wording of the specification, not the code.
\<close>

definition baseline :: "KlineData list \<Rightarrow> nat \<Rightarrow> nat \<Rightarrow> KlineData list" where
  "baseline candles window i = map (\<lambda>j. candles ! j) [i - window ..< i]"

definition resistanceAt :: "KlineData list \<Rightarrow> nat \<Rightarrow> nat \<Rightarrow> real" where
  "resistanceAt candles window i = Max (set (map high (baseline candles window i)))"

definition supportAt :: "KlineData list \<Rightarrow> nat \<Rightarrow> nat \<Rightarrow> real" where
  "supportAt candles window i = Min (set (map low (baseline candles window i)))"

text \<open>The candle invariant of the specification: non-negative prices, low below high.\<close>

definition wellformed :: "KlineData \<Rightarrow> bool" where
  "wellformed c \<longleftrightarrow>
     0 \<le> low c \<and> low c \<le> open c \<and> low c \<le> close c \<and> open c \<le> high c \<and>
     close c \<le> high c \<and> 0 \<le> volume c"

section \<open>Example inputs\<close>

text \<open>A candle from its time, open, high, low and close (the volume plays no role).\<close>

definition bar :: "int \<Rightarrow> real \<Rightarrow> real \<Rightarrow> real \<Rightarrow> real \<Rightarrow> KlineData" where
  "bar t o' h l c =
     \<lparr>KlineData.time = t, open = o', high = h, close = c, low = l, volume = 1\<rparr>"

text \<open>Two candles under a ceiling of 100, then a candle that opens and closes above it.\<close>

definition upward :: "KlineData list" where
  "upward = [bar 1 95 100 90 95, bar 2 96 99 91 97, bar 3 (203/2) 103 101 (205/2)]"

text \<open>
  The same ceiling; the last candle closes above 100.2 but opens below 100 (\<open>closeOnly\<close>),
  or opens at 100.125, between the level and the trigger threshold (\<open>gapThrough\<close>).
\<close>

definition closeOnly :: "KlineData list" where
  "closeOnly = [bar 1 95 100 90 95, bar 2 96 100 90 97, bar 3 (199/2) 101 99 (201/2)]"

definition gapThrough :: "KlineData list" where
  "gapThrough = [bar 1 95 100 90 95, bar 2 96 100 90 97, bar 3 (801/8) 101 100 (201/2)]"

text \<open>Two candles above a floor of 90, then a candle that opens and closes below it.\<close>

definition downward :: "KlineData list" where
  "downward = [bar 1 95 100 90 95, bar 2 96 99 91 97, bar 3 89 (179/2) 88 (177/2)]"

text \<open>
  A first candle whose high (10) is below its low (100), so that the next close of 50 is
  above the one and below the other; then a rise, a quiet candle and a fall.
\<close>

definition crossing :: "KlineData list" where
  "crossing = [bar 1 50 10 100 50, bar 2 50 50 50 50, bar 3 55 60 40 60,
               bar 4 50 55 45 50, bar 5 44 46 40 41]"

text \<open>
  A ceiling of 100, then a candle whose close is the double nearest to 100.2, which is
  above 100.2 and equal to the double product of 100 and 1.002.
\<close>

definition nearMiss :: "KlineData list" where
  "nearMiss = [bar 1 95 100 90 95, bar 2 100 101 99 (7050948166601933 / 70368744177664)]"

section \<open>Facts about the built-ins\<close>

lemma index_in_range: "i < length xs \<Longrightarrow> index xs (int i) = Some (xs ! i)"
  by (simp add: index_def)

lemma index_negative: "i < 0 \<Longrightarrow> index xs i = None"
  by (simp add: index_def)

lemma slice_baseline:
  assumes "w \<le> i" "i \<le> length candles"
  shows "slice candles (int i - int w) (int i) = baseline candles w i"
proof -
  have "take w (drop (i - w) candles) = map (\<lambda>j. candles ! j) [i - w ..< i]"
    using assms by (auto simp: list_eq_iff_nth_eq)
  then show ?thesis
    using assms
    by (simp add: slice_def relative_index_def Let_def baseline_def nat_diff_distrib' min_def)
qed

lemma foldl_num_max: "foldl num_max (Finite m) xs = Finite (Max (insert m (set xs)))"
proof (induction xs arbitrary: m)
  case Nil
  show ?case by simp
next
  case (Cons x xs)
  have "Max (insert (max m x) (set xs)) = Max (insert m (insert x (set xs)))"
    by (metis List.finite_set Max_insert Max_singleton finite.insertI insert_not_empty max.assoc)
  then show ?case by (simp add: Cons.IH)
qed

lemma Math_max_Max: "xs \<noteq> [] \<Longrightarrow> Math_max xs = Finite (Max (set xs))"
  by (cases xs) (simp_all add: Math_max_def foldl_num_max)

lemma foldl_num_min: "foldl num_min (Finite m) xs = Finite (Min (insert m (set xs)))"
proof (induction xs arbitrary: m)
  case Nil
  show ?case by simp
next
  case (Cons x xs)
  have "Min (insert (min m x) (set xs)) = Min (insert m (insert x (set xs)))"
    by (metis List.finite_set Min_insert Min_singleton finite.insertI insert_not_empty min.assoc)
  then show ?case by (simp add: Cons.IH)
qed

lemma Math_min_Min: "xs \<noteq> [] \<Longrightarrow> Math_min xs = Finite (Min (set xs))"
  by (cases xs) (simp_all add: Math_min_def foldl_num_min)

section \<open>Facts about rounding\<close>

lemma binary_exponent_bounds:
  assumes "-1022 \<le> e" "e \<le> 1023"
  shows "-1022 \<le> binary_exponent y e \<and> binary_exponent y e \<le> 1023 \<and>
         (-1022 < binary_exponent y e \<longrightarrow> 2 powi binary_exponent y e \<le> y * 2 powi e) \<and>
         (binary_exponent y e < 1023 \<longrightarrow> y * 2 powi e < 2 powi (binary_exponent y e + 1))"
  using assms
proof (induction y e rule: binary_exponent.induct)
  case (1 y e)
  show ?case
  proof (cases "2 \<le> y \<and> e < 1023")
    case True
    have eq: "binary_exponent y e = binary_exponent (y / 2) (e + 1)"
      using True by (subst binary_exponent.simps) simp
    have "(2::real) powi (e + 1) = 2 powi e * 2"
      by (simp add: power_int_add)
    then have val: "y / 2 * 2 powi (e + 1) = y * 2 powi e"
      by simp
    have "-1022 \<le> e + 1" "e + 1 \<le> 1023" using "1.prems" True by simp_all
    from "1.IH"(1) [OF True this] show ?thesis
      unfolding eq val .
  next
    case False
    show ?thesis
    proof (cases "y < 1 \<and> -1022 < e")
      case True
      have eq: "binary_exponent y e = binary_exponent (y * 2) (e - 1)"
        using False True by (subst binary_exponent.simps) simp
      have "(2::real) powi e = 2 powi (e - 1) * 2"
        by (simp add: power_int_diff)
      then have val: "y * 2 * 2 powi (e - 1) = y * 2 powi e"
        by simp
      have "-1022 \<le> e - 1" "e - 1 \<le> 1023" using "1.prems" True by simp_all
      from "1.IH"(2) [OF False True this] show ?thesis
        unfolding eq val .
    next
      case nb: False
      have eq: "binary_exponent y e = e"
        using False nb by (subst binary_exponent.simps) auto
      have pos: "(0::real) < 2 powi e" by simp
      have p1: "(2::real) powi (e + 1) = 2 powi e * 2"
        by (simp add: power_int_add)
      have "2 powi e \<le> y * 2 powi e" if "-1022 < e"
      proof -
        have "1 \<le> y" using nb that by simp
        then show ?thesis using mult_right_mono [of 1 y "2 powi e"] pos by simp
      qed
      moreover have "y * 2 powi e < 2 powi (e + 1)" if "e < 1023"
      proof -
        have "y < 2" using False that by simp
        then have "y * 2 powi e < 2 * 2 powi e" using pos by (simp only: mult_less_cancel_right_pos)
        then show ?thesis by (simp only: p1 mult.commute)
      qed
      ultimately show ?thesis
        using "1.prems" unfolding eq by blast
    qed
  qed
qed

lemma ulp_exponent_range: "-1074 \<le> ulp_exponent z" "ulp_exponent z \<le> 971"
  using binary_exponent_bounds [of 0 "\<bar>z\<bar>"] by (simp_all add: ulp_exponent_def)

lemma ulp_exponent_lower:
  assumes "-1074 < ulp_exponent z"
  shows "2 powi (ulp_exponent z + 52) \<le> \<bar>z\<bar>"
proof -
  have "-1022 < binary_exponent \<bar>z\<bar> 0" using assms by (simp add: ulp_exponent_def)
  then have "2 powi binary_exponent \<bar>z\<bar> 0 \<le> \<bar>z\<bar>"
    using binary_exponent_bounds [of 0 "\<bar>z\<bar>"] by simp
  then show ?thesis by (simp add: ulp_exponent_def)
qed

lemma ulp_exponent_upper:
  assumes "ulp_exponent z < 971"
  shows "\<bar>z\<bar> < 2 powi (ulp_exponent z + 53)"
proof -
  have "binary_exponent \<bar>z\<bar> 0 < 1023" using assms by (simp add: ulp_exponent_def)
  then have "\<bar>z\<bar> < 2 powi (binary_exponent \<bar>z\<bar> 0 + 1)"
    using binary_exponent_bounds [of 0 "\<bar>z\<bar>"] by simp
  moreover have "ulp_exponent z + 53 = binary_exponent \<bar>z\<bar> 0 + 1"
    by (simp add: ulp_exponent_def)
  ultimately show ?thesis by (simp only:)
qed

lemma round_ties_even_ge: "of_int k \<le> q \<Longrightarrow> k \<le> round_ties_even q"
proof -
  assume "of_int k \<le> q"
  then have "k \<le> \<lfloor>q\<rfloor>" by (simp add: le_floor_iff)
  then show ?thesis by (simp add: round_ties_even_def Let_def)
qed

lemma round_ties_even_le: "q \<le> of_int k \<Longrightarrow> round_ties_even q \<le> k"
proof (cases "q = of_int k")
  case True
  then show ?thesis by (simp add: round_ties_even_def Let_def)
next
  case False
  assume "q \<le> of_int k"
  then have "q < of_int k" using False by simp
  then have "\<lfloor>q\<rfloor> < k" by (simp add: floor_less_iff)
  then show ?thesis by (simp add: round_ties_even_def Let_def)
qed

lemma is_double_repr:
  assumes "is_double d"
  shows "d = of_int (round_ties_even (d / 2 powi ulp_exponent d)) * 2 powi ulp_exponent d"
    and "d < 2 powi 1024"
  using assms
  by (auto simp: is_double_def double_of_real_def Let_def split: if_splits)

lemma multiple_of_finer:
  assumes "ez \<le> ed"
  shows "of_int n * (2::real) powi ed = of_int (n * 2 ^ nat (ed - ez)) * 2 powi ez"
proof -
  have "(2::real) powi ed = 2 powi ((ed - ez) + ez)" by simp
  also have "\<dots> = 2 powi (ed - ez) * 2 powi ez" by (rule power_int_add) simp
  also have "(2::real) powi (ed - ez) = 2 ^ nat (ed - ez)"
    using assms by (simp add: power_int_nonneg_exp)
  finally show ?thesis by simp
qed

lemma rounded_ge_double:
  assumes "is_double d" "0 \<le> d" "d \<le> z"
  shows "d \<le> of_int (round_ties_even (z / 2 powi ulp_exponent z)) * 2 powi ulp_exponent z"
proof -
  define ez where "ez = ulp_exponent z"
  define ed where "ed = ulp_exponent d"
  define p :: real where "p = 2 powi ez"
  have p: "0 < p" by (simp add: p_def)
  show ?thesis
  proof (cases "ez \<le> ed")
    case True
    obtain k where k: "d = of_int k * p"
      using is_double_repr(1) [OF assms(1)] multiple_of_finer [OF True]
      unfolding ed_def [symmetric] p_def by metis
    have "of_int k = d / p" using p k by simp
    also have "\<dots> \<le> z / p" using assms(3) p by (simp add: divide_right_mono)
    finally have "k \<le> round_ties_even (z / p)" by (rule round_ties_even_ge)
    then have "of_int k * p \<le> of_int (round_ties_even (z / p)) * p"
      using p by simp
    then show ?thesis by (simp add: k p_def ez_def)
  next
    case False
    have rd: "-1074 \<le> ed" using ulp_exponent_range(1) [of d] by (simp add: ed_def)
    then have "-1074 < ez" using False by simp
    then have lo: "2 powi (ez + 52) \<le> \<bar>z\<bar>"
      using ulp_exponent_lower [of z] by (simp add: ez_def)
    define c :: int where "c = 2 ^ 52"
    have split: "(2::real) powi (ez + 52) = of_int c * p"
      by (simp add: p_def c_def power_int_add mult.commute)
    have "of_int c = (of_int c * p) / p" using p by simp
    also have "\<dots> \<le> z / p"
      using lo assms(2,3) p unfolding split by (intro divide_right_mono) simp_all
    finally have "c \<le> round_ties_even (z / p)" by (rule round_ties_even_ge)
    then have "of_int c * p \<le> of_int (round_ties_even (z / p)) * p"
      using p by simp
    moreover have "d \<le> of_int c * p"
    proof -
      have "ed < 971" using False ulp_exponent_range(2) [of z] by (simp add: ez_def)
      then have "\<bar>d\<bar> < 2 powi (ed + 53)"
        using ulp_exponent_upper [of d] by (simp add: ed_def)
      also have "(2::real) powi (ed + 53) \<le> 2 powi (ez + 52)"
        using False by (intro power_int_increasing) simp_all
      finally show ?thesis unfolding split by simp
    qed
    ultimately have "d \<le> of_int (round_ties_even (z / p)) * p" by (rule order_trans [rotated])
    then show ?thesis by (simp only: p_def ez_def)
  qed
qed

lemma rounded_le_double:
  assumes "is_double d" "0 \<le> z" "z \<le> d"
  shows "of_int (round_ties_even (z / 2 powi ulp_exponent z)) * 2 powi ulp_exponent z \<le> d"
proof -
  define ez where "ez = ulp_exponent z"
  define ed where "ed = ulp_exponent d"
  define p :: real where "p = 2 powi ez"
  have p: "0 < p" by (simp add: p_def)
  have "ez \<le> ed"
  proof (rule ccontr)
    assume "\<not> ez \<le> ed"
    then have lt: "ed < ez" by simp
    have "-1074 \<le> ed" using ulp_exponent_range(1) [of d] by (simp add: ed_def)
    then have "-1074 < ez" using lt by simp
    then have lo: "2 powi (ez + 52) \<le> \<bar>z\<bar>"
      using ulp_exponent_lower [of z] by (simp add: ez_def)
    have "ed < 971" using lt ulp_exponent_range(2) [of z] by (simp add: ez_def)
    then have "\<bar>d\<bar> < 2 powi (ed + 53)"
      using ulp_exponent_upper [of d] by (simp add: ed_def)
    also have "(2::real) powi (ed + 53) \<le> 2 powi (ez + 52)"
      using lt by (intro power_int_increasing) simp_all
    finally show False using lo assms(2,3) by simp
  qed
  then obtain k where k: "d = of_int k * p"
    using is_double_repr(1) [OF assms(1)] multiple_of_finer [of ez ed]
    unfolding ed_def [symmetric] p_def by metis
  have "z / p \<le> d / p" using assms(3) p by (simp add: divide_right_mono)
  also have "d / p = of_int k" using p k by simp
  finally have "round_ties_even (z / p) \<le> k" by (rule round_ties_even_le)
  then have "of_int (round_ties_even (z / p)) * p \<le> of_int k * p"
    using p by simp
  then show ?thesis by (simp add: k p_def ez_def)
qed

lemma round_ties_even_nonneg: "0 \<le> q \<Longrightarrow> 0 \<le> round_ties_even q"
  using round_ties_even_ge [of 0 q] by simp

lemma threshold_above_double:
  assumes "is_double d" "0 \<le> d" "d \<le> z" "num_gt (Finite x) (double_of_real z)"
  shows "d < x"
  using rounded_ge_double [OF assms(1,2,3)] assms(2,4)
  by (auto simp: double_of_real_def Let_def split: if_splits)

lemma threshold_below_double:
  assumes "is_double d" "0 \<le> z" "z \<le> d" "num_lt (Finite x) (double_of_real z)"
  shows "x < d"
  using rounded_le_double [OF assms(1,2,3)] is_double_repr(2) [OF assms(1)] assms(4)
  by (auto simp: double_of_real_def Let_def num_lt_def split: if_splits)

text \<open>Evaluating a rounding from its exponent and its significand.\<close>

lemma double_of_real_eval:
  assumes "ulp_exponent z = e" "round_ties_even (z / 2 powi e) = n"
    and "\<bar>of_int n * 2 powi e\<bar> < (2::real) powi 1024"
  shows "double_of_real z = Finite (of_int n * 2 powi e)"
  using assms by (auto simp: double_of_real_def Let_def)

section \<open>The loop, index by index\<close>

lemma loopBody_in_range:
  "i < length candles \<Longrightarrow> loopBody candles period (int i) = Inr (emitted candles period i)"
  by (simp add: emitted_def loopBody_def Let_def index_in_range)

lemma loopBody_negative: "i < 0 \<Longrightarrow> loopBody candles period i = Inl TypeError"
  by (simp add: loopBody_def Let_def index_negative)

lemma loop_negative: "i < 0 \<Longrightarrow> loop candles period i signals = Inl TypeError"
  by (subst loop.simps) (simp add: loopBody_negative)

lemma loop_from:
  "loop candles period (int i) signals =
     Inr (signals @ concat (map (emitted candles period) [i ..< length candles]))"
proof (induction "length candles - i" arbitrary: i signals)
  case 0
  then show ?case by (subst loop.simps) simp
next
  case (Suc n)
  then have lt: "i < length candles" and n: "n = length candles - Suc i" by simp_all
  have "loop candles period (int i) signals =
          loop candles period (int (Suc i)) (signals @ emitted candles period i)"
    using lt by (subst loop.simps) (simp add: loopBody_in_range add.commute)
  also have "\<dots> = Inr ((signals @ emitted candles period i) @
                      concat (map (emitted candles period) [Suc i ..< length candles]))"
    using Suc.hyps(1) [OF n] .
  finally show ?case using lt by (simp add: upt_conv_Cons)
qed

lemma detectBreakout_nonneg:
  "detectBreakout candles (int w) =
     Inr (concat (map (emitted candles (int w)) [w ..< length candles]))"
  by (simp add: detectBreakout_def loop_from)

lemma detectBreakout_negative: "period < 0 \<Longrightarrow> detectBreakout candles period = Inl TypeError"
  by (simp add: detectBreakout_def loop_negative)

lemma baseline_nonempty: "0 < w \<Longrightarrow> w \<le> i \<Longrightarrow> baseline candles w i \<noteq> []"
  by (simp add: baseline_def)

text \<open>
  With a positive window the two levels are finite, and the body of the loop at an index
  \<open>i\<close> with \<open>window \<le> i < length candles\<close> reads as the specification writes it, the
  two thresholds being products of doubles.
\<close>

lemma emitted_positive_window:
  assumes "0 < w" "w \<le> i" "i < length candles"
  shows "emitted candles (int w) i =
     (if num_gt (Finite (close (candles ! i)))
           (num_times (Finite (resistanceAt candles w i)) (double_of_real 1.002))
      then [\<lparr>time = KlineData.time (candles ! i), type = Resistance,
             price = close (candles ! i),
             confirmed = (close (candles ! i) > resistanceAt candles w i \<and>
                          open (candles ! i) > resistanceAt candles w i)\<rparr>]
      else []) @
     (if num_lt (Finite (close (candles ! i)))
           (num_times (Finite (supportAt candles w i)) (double_of_real 0.998))
      then [\<lparr>time = KlineData.time (candles ! i), type = Support,
             price = close (candles ! i),
             confirmed = (close (candles ! i) < supportAt candles w i \<and>
                          open (candles ! i) < supportAt candles w i)\<rparr>]
      else [])"
proof -
  have sl: "slice candles (int i - int w) (int i) = baseline candles w i"
    using assms by (simp add: slice_baseline)
  have ne: "baseline candles w i \<noteq> []"
    using assms by (simp add: baseline_nonempty)
  have mx: "Math_max (map high (baseline candles w i)) = Finite (resistanceAt candles w i)"
    using ne by (simp add: Math_max_Max resistanceAt_def)
  have mn: "Math_min (map low (baseline candles w i)) = Finite (supportAt candles w i)"
    using ne by (simp add: Math_min_Min supportAt_def)
  show ?thesis
    using assms(3)
    by (simp add: emitted_def loopBody_def Let_def index_in_range sl mx mn num_lt_def)
qed

section \<open>The examples, evaluated\<close>

lemma literal_1002: "double_of_real 1.002 = Finite (4512606826625237 / 4503599627370496)"
  using double_of_real_eval [of "1.002" "-52" 4512606826625237]
  by (simp add: ulp_exponent_def binary_exponent.simps round_ties_even_def power_int_minus)

lemma literal_0998: "double_of_real 0.998 = Finite (4494592428115755 / 4503599627370496)"
  using double_of_real_eval [of "0.998" "-53" 8989184856231510]
  by (simp add: ulp_exponent_def binary_exponent.simps round_ties_even_def power_int_minus)

lemma literal_reduced:
  "double_of_real (501 / 500) = Finite (4512606826625237 / 4503599627370496)"
  "double_of_real (499 / 500) = Finite (4494592428115755 / 4503599627370496)"
  using literal_1002 literal_0998 by simp_all

lemma resistance_threshold_100:
  "num_times (Finite 100) (double_of_real 1.002) = Finite (7050948166601933 / 70368744177664)"
proof -
  have "double_of_real (100 * (4512606826625237 / 4503599627370496)) = Finite (7050948166601933 / 70368744177664)"
    using double_of_real_eval [of "100 * (4512606826625237 / 4503599627370496)" "-46" 7050948166601933]
    by (simp add: ulp_exponent_def binary_exponent.simps round_ties_even_def power_int_minus)
  then show ?thesis by (simp only: literal_1002 num_times.simps)
qed

lemma resistance_threshold_10:
  "num_times (Finite 10) (double_of_real 1.002) = Finite (2820379266640773 / 281474976710656)"
proof -
  have "double_of_real (10 * (4512606826625237 / 4503599627370496)) = Finite (2820379266640773 / 281474976710656)"
    using double_of_real_eval [of "10 * (4512606826625237 / 4503599627370496)" "-49" 5640758533281546]
    by (simp add: ulp_exponent_def binary_exponent.simps round_ties_even_def power_int_minus)
  then show ?thesis by (simp only: literal_1002 num_times.simps)
qed

lemma resistance_threshold_50:
  "num_times (Finite 50) (double_of_real 1.002) = Finite (7050948166601933 / 140737488355328)"
proof -
  have "double_of_real (50 * (4512606826625237 / 4503599627370496)) = Finite (7050948166601933 / 140737488355328)"
    using double_of_real_eval [of "50 * (4512606826625237 / 4503599627370496)" "-47" 7050948166601933]
    by (simp add: ulp_exponent_def binary_exponent.simps round_ties_even_def power_int_minus)
  then show ?thesis by (simp only: literal_1002 num_times.simps)
qed

lemma resistance_threshold_60:
  "num_times (Finite 60) (double_of_real 1.002) = Finite (8461137799922319 / 140737488355328)"
proof -
  have "double_of_real (60 * (4512606826625237 / 4503599627370496)) = Finite (8461137799922319 / 140737488355328)"
    using double_of_real_eval [of "60 * (4512606826625237 / 4503599627370496)" "-47" 8461137799922319]
    by (simp add: ulp_exponent_def binary_exponent.simps round_ties_even_def power_int_minus)
  then show ?thesis by (simp only: literal_1002 num_times.simps)
qed

lemma resistance_threshold_55:
  "num_times (Finite 55) (double_of_real 1.002) = Finite (3878021491631063 / 70368744177664)"
proof -
  have "double_of_real (55 * (4512606826625237 / 4503599627370496)) = Finite (3878021491631063 / 70368744177664)"
    using double_of_real_eval [of "55 * (4512606826625237 / 4503599627370496)" "-47" 7756042983262126]
    by (simp add: ulp_exponent_def binary_exponent.simps round_ties_even_def power_int_minus)
  then show ?thesis by (simp only: literal_1002 num_times.simps)
qed

lemma support_threshold_90:
  "num_times (Finite 90) (double_of_real 0.998) = Finite (1580130150509445 / 17592186044416)"
proof -
  have "double_of_real (90 * (4494592428115755 / 4503599627370496)) = Finite (1580130150509445 / 17592186044416)"
    using double_of_real_eval [of "90 * (4494592428115755 / 4503599627370496)" "-46" 6320520602037780]
    by (simp add: ulp_exponent_def binary_exponent.simps round_ties_even_def power_int_minus)
  then show ?thesis by (simp only: literal_0998 num_times.simps)
qed

lemma support_threshold_100:
  "num_times (Finite 100) (double_of_real 0.998) = Finite (7022800668930867 / 70368744177664)"
proof -
  have "double_of_real (100 * (4494592428115755 / 4503599627370496)) = Finite (7022800668930867 / 70368744177664)"
    using double_of_real_eval [of "100 * (4494592428115755 / 4503599627370496)" "-46" 7022800668930867]
    by (simp add: ulp_exponent_def binary_exponent.simps round_ties_even_def power_int_minus)
  then show ?thesis by (simp only: literal_0998 num_times.simps)
qed

lemma support_threshold_50:
  "num_times (Finite 50) (double_of_real 0.998) = Finite (7022800668930867 / 140737488355328)"
proof -
  have "double_of_real (50 * (4494592428115755 / 4503599627370496)) = Finite (7022800668930867 / 140737488355328)"
    using double_of_real_eval [of "50 * (4494592428115755 / 4503599627370496)" "-47" 7022800668930867]
    by (simp add: ulp_exponent_def binary_exponent.simps round_ties_even_def power_int_minus)
  then show ?thesis by (simp only: literal_0998 num_times.simps)
qed

lemma support_threshold_40:
  "num_times (Finite 40) (double_of_real 0.998) = Finite (2809120267572347 / 70368744177664)"
proof -
  have "double_of_real (40 * (4494592428115755 / 4503599627370496)) = Finite (2809120267572347 / 70368744177664)"
    using double_of_real_eval [of "40 * (4494592428115755 / 4503599627370496)" "-47" 5618240535144694]
    by (simp add: ulp_exponent_def binary_exponent.simps round_ties_even_def power_int_minus)
  then show ?thesis by (simp only: literal_0998 num_times.simps)
qed

lemma support_threshold_45:
  "num_times (Finite 45) (double_of_real 0.998) = Finite (1580130150509445 / 35184372088832)"
proof -
  have "double_of_real (45 * (4494592428115755 / 4503599627370496)) = Finite (1580130150509445 / 35184372088832)"
    using double_of_real_eval [of "45 * (4494592428115755 / 4503599627370496)" "-47" 6320520602037780]
    by (simp add: ulp_exponent_def binary_exponent.simps round_ties_even_def power_int_minus)
  then show ?thesis by (simp only: literal_0998 num_times.simps)
qed

lemma example_doubles:
  "is_double 88" "is_double (179/2)" "is_double 90" "is_double 91" "is_double 99"
  "is_double 100" "is_double 101"
  by (simp_all add: is_double_def double_of_real_def Let_def ulp_exponent_def
      binary_exponent.simps round_ties_even_def power_int_minus)

lemma upward_emitted:
  "emitted upward 2 2 = [\<lparr>time = 3, type = Resistance, price = 205/2, confirmed = True\<rparr>]"
  (is "_ = ?rhs")
proof -
  have len: "length upward = 3" by (simp add: upward_def)
  have pre2: "(0::nat) < 2" "(2::nat) \<le> 2" "2 < length upward"
    by (simp_all add: len)
  have r: "resistanceAt upward 2 2 = 100" by code_simp
  have s: "supportAt upward 2 2 = 90" by code_simp
  have c: "upward ! 2 = bar 3 (203/2) 103 101 (205/2)" by (simp add: upward_def)
  have "emitted upward (int 2) 2 = emitted upward 2 2" by simp
  moreover have "emitted upward (int 2) 2 = ?rhs"
    by (simp only: emitted_positive_window [OF pre2] r s resistance_threshold_100 support_threshold_90)
       (simp add: c bar_def num_lt_def)
  ultimately show ?thesis by simp
qed

lemma upward_detect:
  "detectBreakout upward 2 =
     Inr [\<lparr>time = 3, type = Resistance, price = 205/2, confirmed = True\<rparr>]"
proof -
  have "[2 ..< length upward] = [2]" by (simp add: upward_def upt_rec_numeral)
  then have "detectBreakout upward (int 2) = Inr (concat (map (emitted upward (int 2)) [2]))"
    by (simp only: detectBreakout_nonneg)
  then show ?thesis by (simp add: upward_emitted)
qed

lemma closeOnly_emitted:
  "emitted closeOnly 2 2 =
     [\<lparr>time = 3, type = Resistance, price = 201/2, confirmed = False\<rparr>]"
  (is "_ = ?rhs")
proof -
  have len: "length closeOnly = 3" by (simp add: closeOnly_def)
  have pre2: "(0::nat) < 2" "(2::nat) \<le> 2" "2 < length closeOnly"
    by (simp_all add: len)
  have r: "resistanceAt closeOnly 2 2 = 100" by code_simp
  have s: "supportAt closeOnly 2 2 = 90" by code_simp
  have c: "closeOnly ! 2 = bar 3 (199/2) 101 99 (201/2)" by (simp add: closeOnly_def)
  have "emitted closeOnly (int 2) 2 = emitted closeOnly 2 2" by simp
  moreover have "emitted closeOnly (int 2) 2 = ?rhs"
    by (simp only: emitted_positive_window [OF pre2] r s resistance_threshold_100 support_threshold_90)
       (simp add: c bar_def num_lt_def)
  ultimately show ?thesis by simp
qed

lemma gapThrough_emitted:
  "emitted gapThrough 2 2 =
     [\<lparr>time = 3, type = Resistance, price = 201/2, confirmed = True\<rparr>]"
  (is "_ = ?rhs")
proof -
  have len: "length gapThrough = 3" by (simp add: gapThrough_def)
  have pre2: "(0::nat) < 2" "(2::nat) \<le> 2" "2 < length gapThrough"
    by (simp_all add: len)
  have r: "resistanceAt gapThrough 2 2 = 100" by code_simp
  have s: "supportAt gapThrough 2 2 = 90" by code_simp
  have c: "gapThrough ! 2 = bar 3 (801/8) 101 100 (201/2)" by (simp add: gapThrough_def)
  have "emitted gapThrough (int 2) 2 = emitted gapThrough 2 2" by simp
  moreover have "emitted gapThrough (int 2) 2 = ?rhs"
    by (simp only: emitted_positive_window [OF pre2] r s resistance_threshold_100 support_threshold_90)
       (simp add: c bar_def num_lt_def)
  ultimately show ?thesis by simp
qed

lemma downward_emitted:
  "emitted downward 2 2 = [\<lparr>time = 3, type = Support, price = 177/2, confirmed = True\<rparr>]"
  (is "_ = ?rhs")
proof -
  have len: "length downward = 3" by (simp add: downward_def)
  have pre2: "(0::nat) < 2" "(2::nat) \<le> 2" "2 < length downward"
    by (simp_all add: len)
  have r: "resistanceAt downward 2 2 = 100" by code_simp
  have s: "supportAt downward 2 2 = 90" by code_simp
  have c: "downward ! 2 = bar 3 89 (179/2) 88 (177/2)" by (simp add: downward_def)
  have "emitted downward (int 2) 2 = emitted downward 2 2" by simp
  moreover have "emitted downward (int 2) 2 = ?rhs"
    by (simp only: emitted_positive_window [OF pre2] r s resistance_threshold_100 support_threshold_90)
       (simp add: c bar_def num_lt_def)
  ultimately show ?thesis by simp
qed

lemma nearMiss_emitted: "emitted nearMiss 1 1 = []"
  (is "_ = ?rhs")
proof -
  have len: "length nearMiss = 2" by (simp add: nearMiss_def)
  have pre1: "(0::nat) < 1" "(1::nat) \<le> 1" "1 < length nearMiss"
    by (simp_all add: len)
  have r: "resistanceAt nearMiss 1 1 = 100" by code_simp
  have s: "supportAt nearMiss 1 1 = 90" by code_simp
  have c: "nearMiss ! 1 = bar 2 100 101 99 (7050948166601933 / 70368744177664)"
    by (simp add: nearMiss_def)
  have "emitted nearMiss (int 1) 1 = emitted nearMiss 1 1" by (simp del: One_nat_def)
  moreover have "emitted nearMiss (int 1) 1 = ?rhs"
    by (simp only: emitted_positive_window [OF pre1] r s resistance_threshold_100 support_threshold_90)
       (simp add: c bar_def num_lt_def del: One_nat_def)
  ultimately show ?thesis by (simp del: One_nat_def)
qed

lemma crossing_emitted:
  "emitted crossing 1 1 =
     [\<lparr>time = 2, type = Resistance, price = 50, confirmed = True\<rparr>,
      \<lparr>time = 2, type = Support, price = 50, confirmed = True\<rparr>]"
  "emitted crossing 1 2 = [\<lparr>time = 3, type = Resistance, price = 60, confirmed = True\<rparr>]"
  "emitted crossing 1 3 = []"
  "emitted crossing 1 4 = [\<lparr>time = 5, type = Support, price = 41, confirmed = True\<rparr>]"
proof -
  have len: "length crossing = 5" by (simp add: crossing_def)
  have pre1: "(0::nat) < 1" "(1::nat) \<le> 1" "1 < length crossing"
    by (simp_all add: len)
  have pre2: "(0::nat) < 1" "(1::nat) \<le> 2" "2 < length crossing"
    by (simp_all add: len)
  have pre3: "(0::nat) < 1" "(1::nat) \<le> 3" "3 < length crossing"
    by (simp_all add: len)
  have pre4: "(0::nat) < 1" "(1::nat) \<le> 4" "4 < length crossing"
    by (simp_all add: len)
  have r: "resistanceAt crossing 1 1 = 10" "resistanceAt crossing 1 2 = 50"
      "resistanceAt crossing 1 3 = 60" "resistanceAt crossing 1 4 = 55"
    by code_simp+
  have s: "supportAt crossing 1 1 = 100" "supportAt crossing 1 2 = 50"
      "supportAt crossing 1 3 = 40" "supportAt crossing 1 4 = 45"
    by code_simp+
  have c: "crossing ! 1 = bar 2 50 50 50 50" "crossing ! 2 = bar 3 55 60 40 60"
      "crossing ! 3 = bar 4 50 55 45 50" "crossing ! 4 = bar 5 44 46 40 41"
    by (simp_all add: crossing_def)
  show "emitted crossing 1 1 =
     [\<lparr>time = 2, type = Resistance, price = 50, confirmed = True\<rparr>,
      \<lparr>time = 2, type = Support, price = 50, confirmed = True\<rparr>]"
    using emitted_positive_window [OF pre1, unfolded r s resistance_threshold_10 support_threshold_100]
    by (simp add: c bar_def num_lt_def del: One_nat_def)
  show "emitted crossing 1 2 =
      [\<lparr>time = 3, type = Resistance, price = 60, confirmed = True\<rparr>]"
    using emitted_positive_window [OF pre2, unfolded r s resistance_threshold_50 support_threshold_50]
    by (simp add: c bar_def num_lt_def del: One_nat_def)
  show "emitted crossing 1 3 = []"
    using emitted_positive_window [OF pre3, unfolded r s resistance_threshold_60 support_threshold_40]
    by (simp add: c bar_def num_lt_def del: One_nat_def)
  show "emitted crossing 1 4 =
      [\<lparr>time = 5, type = Support, price = 41, confirmed = True\<rparr>]"
    using emitted_positive_window [OF pre4, unfolded r s resistance_threshold_55 support_threshold_45]
    by (simp add: c bar_def num_lt_def del: One_nat_def)
qed

lemma crossing_detect:
  "detectBreakout crossing 1 =
     Inr [\<lparr>time = 2, type = Resistance, price = 50, confirmed = True\<rparr>,
          \<lparr>time = 2, type = Support, price = 50, confirmed = True\<rparr>,
          \<lparr>time = 3, type = Resistance, price = 60, confirmed = True\<rparr>,
          \<lparr>time = 5, type = Support, price = 41, confirmed = True\<rparr>]"
proof -
  have "[1 ..< length crossing] = [1, 2, 3, 4]"
    by (simp add: crossing_def upt_rec_numeral del: One_nat_def)
  then have "detectBreakout crossing (int 1) =
      Inr (concat (map (emitted crossing (int 1)) [1, 2, 3, 4]))"
    by (simp only: detectBreakout_nonneg)
  then show ?thesis by (simp add: crossing_emitted del: One_nat_def)
qed

section \<open>Threshold correctness\<close>

text \<open>
  C1, as the code has it. The claim compares the close with the real product of the
  level and 1.002; the code compares it with the product of two doubles. In \<open>nearMiss\<close>
  the close at index 1 is above 1.002 times the maximum high of the window, and no
  signal is emitted: the double product of 100 and 1.002 is the close itself.
\<close>

theorem threshold_correctness_counterexample:
  "resistanceAt nearMiss 1 1 * 1.002 < close (nearMiss ! 1) \<and>
   emitted nearMiss 1 1 = [] \<and>
   detectBreakout nearMiss 1 = Inr []"
proof -
  have r: "resistanceAt nearMiss 1 1 = 100" by code_simp
  have c: "close (nearMiss ! 1) = 7050948166601933 / 70368744177664"
    by (simp add: nearMiss_def bar_def)
  have "[1 ..< length nearMiss] = [1]"
    by (simp add: nearMiss_def del: One_nat_def)
  then have "detectBreakout nearMiss (int 1) = Inr (concat (map (emitted nearMiss (int 1)) [1]))"
    by (simp only: detectBreakout_nonneg)
  then have d: "detectBreakout nearMiss 1 = Inr []"
    by (simp add: nearMiss_emitted del: One_nat_def)
  have "resistanceAt nearMiss 1 1 * 1.002 < close (nearMiss ! 1)"
    by (simp only: r c) simp
  then show ?thesis
    using d nearMiss_emitted by (intro conjI)
qed

text \<open>
  C1, amended. For a positive window and a sequence of at least \<open>window + 1\<close> candles,
  the result of \<open>detectBreakout\<close> is the signals emitted at the indices
  \<open>window, \<dots>, length - 1\<close>, in that order; and at each such index \<open>i\<close> a resistance
  signal is emitted if and only if the close of candle \<open>i\<close> exceeds the double product
  of the maximum high of the candles \<open>i - window, \<dots>, i - 1\<close> and the double nearest to
  1.002, and a support signal if and only if the close is below the double product of
  their minimum low and the double nearest to 0.998.
\<close>

theorem threshold_correctness:
  assumes "0 < w" "w + 1 \<le> length candles" "w \<le> i" "i \<le> length candles - 1"
  shows "detectBreakout candles (int w) =
           Inr (concat (map (emitted candles (int w)) [w ..< length candles])) \<and>
         ((\<exists>s \<in> set (emitted candles (int w) i). type s = Resistance) \<longleftrightarrow>
            num_gt (Finite (close (candles ! i)))
              (num_times (Finite (resistanceAt candles w i)) (double_of_real 1.002))) \<and>
         ((\<exists>s \<in> set (emitted candles (int w) i). type s = Support) \<longleftrightarrow>
            num_lt (Finite (close (candles ! i)))
              (num_times (Finite (supportAt candles w i)) (double_of_real 0.998)))"
proof -
  have lt: "i < length candles" using assms by simp
  show ?thesis
    by (auto simp: detectBreakout_nonneg emitted_positive_window [OF assms(1) assms(3) lt])
qed

theorem threshold_correctness_witness:
  "(0::nat) < 2 \<and> 2 + 1 \<le> length upward \<and> (2::nat) \<le> 2 \<and> 2 \<le> length upward - 1 \<and>
   num_gt (Finite (close (upward ! 2)))
     (num_times (Finite (resistanceAt upward 2 2)) (double_of_real 1.002)) \<and>
   (\<exists>s \<in> set (emitted upward (int 2) 2). type s = Resistance) \<and>
   \<not> num_lt (Finite (close (upward ! 2)))
     (num_times (Finite (supportAt upward 2 2)) (double_of_real 0.998)) \<and>
   \<not> (\<exists>s \<in> set (emitted upward (int 2) 2). type s = Support)"
proof -
  have len: "length upward = 3" by (simp add: upward_def)
  have pre: "(0::nat) < 2" "2 + 1 \<le> length upward" "(2::nat) \<le> 2" "2 \<le> length upward - 1"
    by (simp_all add: len)
  have r: "resistanceAt upward 2 2 = 100" by code_simp
  have s: "supportAt upward 2 2 = 90" by code_simp
  have c: "close (upward ! 2) = 205/2" by (simp add: upward_def bar_def)
  have up: "num_gt (Finite (close (upward ! 2)))
      (num_times (Finite (resistanceAt upward 2 2)) (double_of_real 1.002))"
    by (simp only: r resistance_threshold_100) (simp add: c)
  have down: "\<not> num_lt (Finite (close (upward ! 2)))
      (num_times (Finite (supportAt upward 2 2)) (double_of_real 0.998))"
    by (simp only: s support_threshold_90) (simp add: c num_lt_def)
  show ?thesis
    using threshold_correctness [OF pre] pre up down by blast
qed

section \<open>Confirmation\<close>

text \<open>
  A number exceeds \<^verbatim>\<open>Math.max\<close> of a list exactly when it exceeds every element, which
  for the empty list (\<^verbatim>\<open>-Infinity\<close>) is always.
\<close>

lemma num_gt_Math_max: "num_gt (Finite x) (Math_max hs) \<longleftrightarrow> (\<forall>h \<in> set hs. h < x)"
proof (cases "hs = []")
  case True
  then show ?thesis by (simp add: Math_max_def)
next
  case False
  then show ?thesis by (simp add: Math_max_Max)
qed

lemma num_lt_Math_min: "num_lt (Finite x) (Math_min ls) \<longleftrightarrow> (\<forall>l \<in> set ls. x < l)"
proof (cases "ls = []")
  case True
  then show ?thesis by (simp add: Math_min_def num_lt_def)
next
  case False
  then show ?thesis by (simp add: Math_min_Min num_lt_def)
qed

lemma emitted_confirmed:
  assumes "w \<le> i" "i < length candles" "s \<in> set (emitted candles (int w) i)"
  shows "(type s = Resistance \<longrightarrow>
           (confirmed s \<longleftrightarrow> (\<forall>b \<in> set (baseline candles w i).
               high b < open (candles ! i) \<and> high b < close (candles ! i)))) \<and>
         (type s = Support \<longrightarrow>
           (confirmed s \<longleftrightarrow> (\<forall>b \<in> set (baseline candles w i).
               open (candles ! i) < low b \<and> close (candles ! i) < low b)))"
proof -
  have sl: "slice candles (int i - int w) (int i) = baseline candles w i"
    using assms by (simp add: slice_baseline)
  show ?thesis
    using assms(2,3)
    by (auto simp: emitted_def loopBody_def Let_def index_in_range sl num_gt_Math_max
        num_lt_Math_min split: if_splits)
qed

text \<open>
  C2. A signal emitted at index \<open>i\<close> is confirmed if and only if the open and the close
  of candle \<open>i\<close> both lie strictly beyond every high (resistance) or every low (support)
  of the baseline window; for a positive window that is: strictly beyond the unscaled
  maximum high, or minimum low, and not beyond the level scaled by 1.002 or 0.998.
\<close>

theorem confirmation_correctness:
  assumes "w \<le> i" "i < length candles" "s \<in> set (emitted candles (int w) i)"
  shows "(type s = Resistance \<longrightarrow>
           (confirmed s \<longleftrightarrow> (\<forall>b \<in> set (baseline candles w i).
               high b < open (candles ! i) \<and> high b < close (candles ! i))) \<and>
           (0 < w \<longrightarrow> (confirmed s \<longleftrightarrow>
               resistanceAt candles w i < open (candles ! i) \<and>
               resistanceAt candles w i < close (candles ! i)))) \<and>
         (type s = Support \<longrightarrow>
           (confirmed s \<longleftrightarrow> (\<forall>b \<in> set (baseline candles w i).
               open (candles ! i) < low b \<and> close (candles ! i) < low b)) \<and>
           (0 < w \<longrightarrow> (confirmed s \<longleftrightarrow>
               open (candles ! i) < supportAt candles w i \<and>
               close (candles ! i) < supportAt candles w i)))"
proof -
  have "0 < w \<Longrightarrow> baseline candles w i \<noteq> []"
    using assms(1) by (simp add: baseline_nonempty)
  then show ?thesis
    using emitted_confirmed [OF assms]
    by (auto simp: resistanceAt_def supportAt_def)
qed

theorem confirmation_correctness_witness:
  "(2::nat) \<le> 2 \<and> 2 < length closeOnly \<and>
   \<lparr>time = 3, type = Resistance, price = 201/2, confirmed = False\<rparr>
     \<in> set (emitted closeOnly 2 2) \<and>
   \<not> (resistanceAt closeOnly 2 2 < open (closeOnly ! 2) \<and>
      resistanceAt closeOnly 2 2 < close (closeOnly ! 2)) \<and>
   resistanceAt closeOnly 2 2 * 1.002 < close (closeOnly ! 2) \<and>
   \<lparr>time = 3, type = Resistance, price = 201/2, confirmed = True\<rparr>
     \<in> set (emitted gapThrough 2 2) \<and>
   resistanceAt gapThrough 2 2 < open (gapThrough ! 2) \<and>
   resistanceAt gapThrough 2 2 < close (gapThrough ! 2) \<and>
   open (gapThrough ! 2) < resistanceAt gapThrough 2 2 * 1.002"
proof -
  have len: "length closeOnly = 3" "length gapThrough = 3"
    by (simp_all add: closeOnly_def gapThrough_def)
  have r: "resistanceAt closeOnly 2 2 = 100" "resistanceAt gapThrough 2 2 = 100"
    by code_simp+
  have c: "close (closeOnly ! 2) = 201/2" "open (gapThrough ! 2) = 801/8"
    by (simp_all add: closeOnly_def gapThrough_def bar_def)
  show ?thesis
    using confirmation_correctness [of 2 2 closeOnly
        "\<lparr>time = 3, type = Resistance, price = 201/2, confirmed = False\<rparr>"]
      confirmation_correctness [of 2 2 gapThrough
        "\<lparr>time = 3, type = Resistance, price = 201/2, confirmed = True\<rparr>"]
    by (simp add: len closeOnly_emitted gapThrough_emitted r c)
qed

section \<open>Short inputs\<close>

text \<open>
  C3. With fewer candles than the window, \<open>detectBreakout\<close> returns the empty list of
  signals, and returns it normally.
\<close>

theorem insufficient_history:
  "int (length candles) < period \<Longrightarrow> detectBreakout candles period = Inr []"
  by (simp add: detectBreakout_def)

theorem insufficient_history_witness:
  "int (length (replicate 19 (bar 1 95 100 90 95))) < 20 \<and>
   detectBreakout (replicate 19 (bar 1 95 100 90 95)) 20 = Inr []"
  using insufficient_history [of "replicate 19 (bar 1 95 100 90 95)" 20] by simp

section \<open>Where a signal comes from\<close>

lemma emitted_time_price:
  assumes "i < length candles" "s \<in> set (emitted candles period i)"
  shows "BreakoutSignal.time s = KlineData.time (candles ! i) \<and> price s = close (candles ! i)"
  using assms
  by (auto simp: emitted_def loopBody_def Let_def index_in_range split: if_splits)

lemma detectBreakout_Inr_nonneg:
  "detectBreakout candles period = Inr sigs \<Longrightarrow> 0 \<le> period"
  using detectBreakout_negative [of period candles] by (cases "period < 0") simp_all

lemma detectBreakout_signal_index:
  assumes "detectBreakout candles period = Inr sigs" "s \<in> set sigs"
  shows "\<exists>i. period \<le> int i \<and> i < length candles \<and> s \<in> set (emitted candles period i)"
proof -
  obtain w where w: "period = int w"
    using detectBreakout_Inr_nonneg [OF assms(1)] by (metis nat_0_le)
  have "sigs = concat (map (emitted candles (int w)) [w ..< length candles])"
    using assms(1) by (simp add: w detectBreakout_nonneg)
  then obtain i where "w \<le> i" "i < length candles" "s \<in> set (emitted candles (int w) i)"
    using assms(2) by auto
  then show ?thesis using w by auto
qed

text \<open>
  C6. Every signal that \<open>detectBreakout\<close> returns carries the time of a candle at an
  index not below the window, and its price is the close of that candle.
\<close>

theorem signal_time_and_price:
  assumes "detectBreakout candles period = Inr sigs" "s \<in> set sigs"
  shows "\<exists>i. period \<le> int i \<and> i < length candles \<and>
             BreakoutSignal.time s = KlineData.time (candles ! i) \<and>
             price s = close (candles ! i)"
  using detectBreakout_signal_index [OF assms] emitted_time_price by blast

theorem signal_time_and_price_witness:
  "detectBreakout upward 2 =
     Inr [\<lparr>time = 3, type = Resistance, price = 205/2, confirmed = True\<rparr>] \<and>
   (\<exists>i. 2 \<le> int i \<and> i < length upward \<and> KlineData.time (upward ! i) = 3 \<and>
        close (upward ! i) = 205/2)"
proof -
  have d: "detectBreakout upward 2 =
     Inr [\<lparr>time = 3, type = Resistance, price = 205/2, confirmed = True\<rparr>]"
    by (rule upward_detect)
  show ?thesis
    using signal_time_and_price [OF d, of
        "\<lparr>time = 3, type = Resistance, price = 205/2, confirmed = True\<rparr>"]
    by (simp add: d)
qed

text \<open>
  C9. With exactly as many candles as the window, \<open>detectBreakout\<close> returns no signal;
  whenever it returns a signal, the input has at least \<open>window + 1\<close> candles.
\<close>

theorem exact_length_is_empty:
  "detectBreakout candles (int (length candles)) = Inr [] \<and>
   (detectBreakout candles period = Inr sigs \<and> sigs \<noteq> [] \<longrightarrow>
      period + 1 \<le> int (length candles))"
proof -
  have "period + 1 \<le> int (length candles)"
    if d: "detectBreakout candles period = Inr sigs" and ne: "sigs \<noteq> []"
  proof -
    obtain s where "s \<in> set sigs" using ne by (cases sigs) auto
    then show ?thesis using detectBreakout_signal_index [OF d] by fastforce
  qed
  then show ?thesis by (auto simp: detectBreakout_nonneg)
qed

theorem exact_length_is_empty_witness:
  "detectBreakout upward (int (length upward)) = Inr [] \<and>
   detectBreakout upward 2 =
     Inr [\<lparr>time = 3, type = Resistance, price = 205/2, confirmed = True\<rparr>] \<and>
   (2::int) + 1 \<le> int (length upward)"
proof -
  have d: "detectBreakout upward 2 =
     Inr [\<lparr>time = 3, type = Resistance, price = 205/2, confirmed = True\<rparr>]"
    by (rule upward_detect)
  show ?thesis
    using exact_length_is_empty [of upward 2
        "[\<lparr>time = 3, type = Resistance, price = 205/2, confirmed = True\<rparr>]"] d
    by simp
qed

section \<open>A window that is not positive\<close>

lemma map_over_indices: "map (\<lambda>i. f (xs ! i)) [0 ..< length xs] = map f xs"
  by (rule nth_equalityI) simp_all

lemma emitted_zero_window:
  assumes "i < length candles"
  shows "emitted candles 0 i =
     [\<lparr>time = KlineData.time (candles ! i), type = Resistance,
        price = close (candles ! i), confirmed = True\<rparr>,
      \<lparr>time = KlineData.time (candles ! i), type = Support,
        price = close (candles ! i), confirmed = True\<rparr>]"
proof -
  have "slice candles (int i) (int i) = []"
    by (simp add: slice_def relative_index_def Let_def)
  then show ?thesis
    using assms
    by (simp add: emitted_def loopBody_def Let_def index_in_range Math_max_def Math_min_def
        num_lt_def literal_reduced)
qed

text \<open>
  C4, as the code has it. The claim that a zero or negative window gives an error or the
  empty result fails for the window 0: one candle and the window 0 give two signals.
\<close>

theorem nonpositive_window_counterexample:
  "detectBreakout [bar 1 95 100 90 95] 0 =
     Inr [\<lparr>time = 1, type = Resistance, price = 95, confirmed = True\<rparr>,
          \<lparr>time = 1, type = Support, price = 95, confirmed = True\<rparr>]"
  using detectBreakout_nonneg [of "[bar 1 95 100 90 95]" 0]
  by (simp add: emitted_zero_window bar_def)

text \<open>
  C4, amended. With a negative window the first read \<^verbatim>\<open>candles[period]\<close> is outside the
  sequence and yields \<^verbatim>\<open>undefined\<close>, and the call throws a \<^verbatim>\<open>TypeError\<close> before
  any signal is returned. With the window 0 the baseline is empty, its maximum is
  \<^verbatim>\<open>-Infinity\<close> and its minimum \<^verbatim>\<open>Infinity\<close>, and the call returns, for every candle in
  order, a confirmed resistance signal followed by a confirmed support signal.
\<close>

theorem nonpositive_window:
  "(period < 0 \<longrightarrow>
      detectBreakout candles period = Inl TypeError \<and> index candles period = None) \<and>
   (period = 0 \<longrightarrow>
      detectBreakout candles period =
        Inr (concat (map (\<lambda>c.
          [\<lparr>time = KlineData.time c, type = Resistance, price = close c, confirmed = True\<rparr>,
           \<lparr>time = KlineData.time c, type = Support, price = close c, confirmed = True\<rparr>])
          candles)))"
proof -
  have "map (emitted candles 0) [0 ..< length candles] =
        map (\<lambda>i. (\<lambda>c.
          [\<lparr>time = KlineData.time c, type = Resistance, price = close c, confirmed = True\<rparr>,
           \<lparr>time = KlineData.time c, type = Support, price = close c, confirmed = True\<rparr>])
          (candles ! i)) [0 ..< length candles]"
    by (simp add: emitted_zero_window)
  also have "\<dots> = map (\<lambda>c.
          [\<lparr>time = KlineData.time c, type = Resistance, price = close c, confirmed = True\<rparr>,
           \<lparr>time = KlineData.time c, type = Support, price = close c, confirmed = True\<rparr>])
          candles"
    by (rule map_over_indices)
  finally have "detectBreakout candles 0 = Inr (concat (map (\<lambda>c.
          [\<lparr>time = KlineData.time c, type = Resistance, price = close c, confirmed = True\<rparr>,
           \<lparr>time = KlineData.time c, type = Support, price = close c, confirmed = True\<rparr>])
          candles))"
    using detectBreakout_nonneg [of candles 0] by simp
  then show ?thesis
    by (auto simp: detectBreakout_negative index_negative)
qed

theorem nonpositive_window_witness:
  "(-1::int) < 0 \<and> detectBreakout upward (-1) = Inl TypeError \<and> index upward (-1) = None \<and>
   detectBreakout [bar 7 95 100 90 96] 0 =
     Inr [\<lparr>time = 7, type = Resistance, price = 96, confirmed = True\<rparr>,
          \<lparr>time = 7, type = Support, price = 96, confirmed = True\<rparr>]"
  using nonpositive_window [of "-1" upward] nonpositive_window [of 0 "[bar 7 95 100 90 96]"]
  by (simp add: bar_def)

section \<open>Signals per index\<close>

lemma emitted_shape:
  "\<exists>rs ss. emitted candles period i = rs @ ss \<and> length rs \<le> 1 \<and> length ss \<le> 1 \<and>
           (\<forall>s \<in> set rs. type s = Resistance) \<and> (\<forall>s \<in> set ss. type s = Support)"
proof (cases "loopBody candles period (int i)")
  case (Inl e)
  then show ?thesis by (simp add: emitted_def)
next
  case (Inr pushed)
  then obtain c where c: "index candles (int i) = Some c"
    by (auto simp: loopBody_def Let_def split: option.splits)
  show ?thesis
    unfolding emitted_def loopBody_def Let_def c option.case sum.case
    by (intro exI conjI, rule refl) simp_all
qed

text \<open>
  C7. An index contributes at most two signals, at most one of each type; and both tests
  can fire for one candle: in \<open>crossing\<close> with window 1 the index 1 contributes a
  resistance and a support signal, index 2 a resistance signal only, index 3 nothing and
  index 4 a support signal only.
\<close>

theorem independent_tests:
  "length (emitted candles period i) \<le> 2 \<and>
   length (filter (\<lambda>s. type s = Resistance) (emitted candles period i)) \<le> 1 \<and>
   length (filter (\<lambda>s. type s = Support) (emitted candles period i)) \<le> 1 \<and>
   emitted crossing 1 1 =
     [\<lparr>time = 2, type = Resistance, price = 50, confirmed = True\<rparr>,
      \<lparr>time = 2, type = Support, price = 50, confirmed = True\<rparr>] \<and>
   emitted crossing 1 2 = [\<lparr>time = 3, type = Resistance, price = 60, confirmed = True\<rparr>] \<and>
   emitted crossing 1 3 = [] \<and>
   emitted crossing 1 4 = [\<lparr>time = 5, type = Support, price = 41, confirmed = True\<rparr>] \<and>
   detectBreakout crossing 1 =
     Inr [\<lparr>time = 2, type = Resistance, price = 50, confirmed = True\<rparr>,
          \<lparr>time = 2, type = Support, price = 50, confirmed = True\<rparr>,
          \<lparr>time = 3, type = Resistance, price = 60, confirmed = True\<rparr>,
          \<lparr>time = 5, type = Support, price = 41, confirmed = True\<rparr>]"
proof -
  obtain rs ss where e: "emitted candles period i = rs @ ss" "length rs \<le> 1" "length ss \<le> 1"
      "\<forall>s \<in> set rs. type s = Resistance" "\<forall>s \<in> set ss. type s = Support"
    using emitted_shape by blast
  have fr: "filter (\<lambda>s. type s = Resistance) (rs @ ss) = rs"
    using e(4,5) by (auto simp: filter_id_conv filter_empty_conv)
  have fs: "filter (\<lambda>s. type s = Support) (rs @ ss) = ss"
    using e(4,5) by (auto simp: filter_id_conv filter_empty_conv)
  have general: "length (emitted candles period i) \<le> 2"
      "length (filter (\<lambda>s. type s = Resistance) (emitted candles period i)) \<le> 1"
      "length (filter (\<lambda>s. type s = Support) (emitted candles period i)) \<le> 1"
    using e(2,3) by (simp_all only: e(1) fr fs) simp
  show ?thesis
    using general crossing_emitted crossing_detect by (intro conjI)
qed

lemma baseline_subset: "i \<le> length candles \<Longrightarrow> set (baseline candles w i) \<subseteq> set candles"
  by (auto simp: baseline_def)

lemma resistanceAt_nonneg:
  assumes "0 < w" "w \<le> i" "i \<le> length candles" "\<forall>b \<in> set candles. 0 \<le> high b"
  shows "0 \<le> resistanceAt candles w i"
proof -
  obtain b where b: "b \<in> set (baseline candles w i)"
    using baseline_nonempty [OF assms(1,2), of candles] by (cases "baseline candles w i") auto
  then have "0 \<le> high b" using assms(3,4) baseline_subset by blast
  also have "high b \<le> resistanceAt candles w i"
    using b by (simp add: resistanceAt_def)
  finally show ?thesis .
qed

lemma supportAt_nonneg:
  assumes "0 < w" "w \<le> i" "i \<le> length candles" "\<forall>b \<in> set candles. 0 \<le> low b"
  shows "0 \<le> supportAt candles w i"
proof -
  have "\<forall>b \<in> set (baseline candles w i). 0 \<le> low b"
    using assms(3,4) baseline_subset by blast
  then show ?thesis
    using baseline_nonempty [OF assms(1,2), of candles] by (simp add: supportAt_def)
qed

lemma resistanceAt_double:
  assumes "0 < w" "w \<le> i" "i \<le> length candles" "\<forall>b \<in> set candles. is_double (high b)"
  shows "is_double (resistanceAt candles w i)"
proof -
  have "resistanceAt candles w i \<in> set (map high (baseline candles w i))"
    unfolding resistanceAt_def
    using baseline_nonempty [OF assms(1,2), of candles] by (intro Max_in) simp_all
  then show ?thesis
    using assms(3,4) baseline_subset [of i candles w] by auto
qed

lemma supportAt_double:
  assumes "0 < w" "w \<le> i" "i \<le> length candles" "\<forall>b \<in> set candles. is_double (low b)"
  shows "is_double (supportAt candles w i)"
proof -
  have "supportAt candles w i \<in> set (map low (baseline candles w i))"
    unfolding supportAt_def
    using baseline_nonempty [OF assms(1,2), of candles] by (intro Min_in) simp_all
  then show ?thesis
    using assms(3,4) baseline_subset [of i candles w] by auto
qed

text \<open>
  The two thresholds lie on the far side of a level that is a non-negative double: the
  double nearest to 1.002 is at least 1 and the one nearest to 0.998 at most 1, and
  rounding a product does not cross a double.
\<close>

lemma resistance_threshold_above_level:
  assumes "is_double r" "0 \<le> r"
    and "num_gt (Finite x) (num_times (Finite r) (double_of_real 1.002))"
  shows "r < x"
proof -
  have "r * 1 \<le> r * (4512606826625237 / 4503599627370496)"
    using assms(2) by (intro mult_left_mono) simp_all
  then have "r \<le> r * (4512606826625237 / 4503599627370496)" by simp
  moreover have "num_gt (Finite x) (double_of_real (r * (4512606826625237 / 4503599627370496)))"
    using assms(3) by (simp only: literal_1002 num_times.simps)
  ultimately show ?thesis
    using threshold_above_double [OF assms(1,2)] by blast
qed

lemma support_threshold_below_level:
  assumes "is_double r" "0 \<le> r"
    and "num_lt (Finite x) (num_times (Finite r) (double_of_real 0.998))"
  shows "x < r"
proof -
  have "r * (4494592428115755 / 4503599627370496) \<le> r * 1"
    using assms(2) by (intro mult_left_mono) simp_all
  then have le: "r * (4494592428115755 / 4503599627370496) \<le> r" by simp
  have nn: "0 \<le> r * (4494592428115755 / 4503599627370496)"
    using assms(2) by simp
  have "num_lt (Finite x) (double_of_real (r * (4494592428115755 / 4503599627370496)))"
    using assms(3) by (simp only: literal_0998 num_times.simps)
  then show ?thesis
    using threshold_below_double [OF assms(1) nn le] by blast
qed

text \<open>
  With a positive window and candles that satisfy the invariant of the specification, the
  two tests cannot both fire at one index.
\<close>

lemma no_double_signal_wellformed:
  assumes "0 < w" "w \<le> i" "i < length candles" "\<forall>b \<in> set candles. wellformed b"
    and "\<forall>b \<in> set candles. is_double (low b) \<and> is_double (high b)"
  shows "length (emitted candles (int w) i) \<le> 1"
proof -
  obtain b where b: "b \<in> set (baseline candles w i)"
    using baseline_nonempty [OF assms(1,2), of candles] by (cases "baseline candles w i") auto
  then have wf: "wellformed b" using assms(3,4) baseline_subset [of i candles w] by auto
  have sb: "supportAt candles w i \<le> low b" using b by (simp add: supportAt_def)
  have rb: "high b \<le> resistanceAt candles w i" using b by (simp add: resistanceAt_def)
  have s0: "0 \<le> supportAt candles w i"
    using assms by (simp add: supportAt_nonneg wellformed_def)
  have r0: "0 \<le> resistanceAt candles w i"
    using s0 sb rb wf by (simp add: wellformed_def)
  have rd: "is_double (resistanceAt candles w i)"
    using assms by (simp add: resistanceAt_double)
  have sd: "is_double (supportAt candles w i)"
    using assms by (simp add: supportAt_double)
  have "\<not> (num_gt (Finite (close (candles ! i)))
              (num_times (Finite (resistanceAt candles w i)) (double_of_real 1.002)) \<and>
            num_lt (Finite (close (candles ! i)))
              (num_times (Finite (supportAt candles w i)) (double_of_real 0.998)))"
    using resistance_threshold_above_level [OF rd r0, of "close (candles ! i)"]
      support_threshold_below_level [OF sd s0, of "close (candles ! i)"] sb rb wf
    by (auto simp: wellformed_def)
  then show ?thesis
    by (auto simp: emitted_positive_window [OF assms(1,2,3)])
qed

text \<open>
  C8. With a positive window and highs and lows that are non-negative doubles, an emitted
  resistance signal has its close strictly above the unscaled resistance, so it is
  confirmed exactly when the open is above the resistance; an emitted support signal has
  its close strictly below the unscaled support and is confirmed exactly when the open is
  below the support.
\<close>

theorem confirmed_reduces_to_open:
  assumes "0 < w" "w \<le> i" "i < length candles"
    and "\<forall>b \<in> set candles. 0 \<le> low b \<and> 0 \<le> high b"
    and "\<forall>b \<in> set candles. is_double (low b) \<and> is_double (high b)"
    and "s \<in> set (emitted candles (int w) i)"
  shows "(type s = Resistance \<longrightarrow>
            resistanceAt candles w i < close (candles ! i) \<and>
            (confirmed s \<longleftrightarrow> resistanceAt candles w i < open (candles ! i))) \<and>
         (type s = Support \<longrightarrow>
            close (candles ! i) < supportAt candles w i \<and>
            (confirmed s \<longleftrightarrow> open (candles ! i) < supportAt candles w i))"
proof -
  have r0: "0 \<le> resistanceAt candles w i"
    using assms by (simp add: resistanceAt_nonneg)
  have s0: "0 \<le> supportAt candles w i"
    using assms by (simp add: supportAt_nonneg)
  have rd: "is_double (resistanceAt candles w i)"
    using assms by (simp add: resistanceAt_double)
  have sd: "is_double (supportAt candles w i)"
    using assms by (simp add: supportAt_double)
  show ?thesis
    using assms(6) resistance_threshold_above_level [OF rd r0, of "close (candles ! i)"]
      support_threshold_below_level [OF sd s0, of "close (candles ! i)"]
    by (auto simp: emitted_positive_window [OF assms(1,2,3)] split: if_splits)
qed

theorem confirmed_reduces_to_open_witness:
  "(0::nat) < 2 \<and> (2::nat) \<le> 2 \<and> 2 < length closeOnly \<and>
   \<lparr>time = 3, type = Resistance, price = 201/2, confirmed = False\<rparr>
      \<in> set (emitted closeOnly 2 2) \<and>
   resistanceAt closeOnly 2 2 < close (closeOnly ! 2) \<and>
   \<not> resistanceAt closeOnly 2 2 < open (closeOnly ! 2) \<and>
   \<lparr>time = 3, type = Support, price = 177/2, confirmed = True\<rparr>
      \<in> set (emitted downward 2 2) \<and>
   close (downward ! 2) < supportAt downward 2 2 \<and>
   open (downward ! 2) < supportAt downward 2 2"
proof -
  have len: "length closeOnly = 3" "length downward = 3"
    by (simp_all add: closeOnly_def downward_def)
  have nn: "\<forall>b \<in> set closeOnly. 0 \<le> low b \<and> 0 \<le> high b"
      "\<forall>b \<in> set downward. 0 \<le> low b \<and> 0 \<le> high b"
    by (simp_all add: closeOnly_def downward_def bar_def)
  have dd: "\<forall>b \<in> set closeOnly. is_double (low b) \<and> is_double (high b)"
      "\<forall>b \<in> set downward. is_double (low b) \<and> is_double (high b)"
    by (simp_all add: closeOnly_def downward_def bar_def example_doubles)
  show ?thesis
    using confirmed_reduces_to_open [of 2 2 closeOnly
        "\<lparr>time = 3, type = Resistance, price = 201/2, confirmed = False\<rparr>"]
      confirmed_reduces_to_open [of 2 2 downward
        "\<lparr>time = 3, type = Support, price = 177/2, confirmed = True\<rparr>"]
    by (simp add: len nn dd closeOnly_emitted downward_emitted)
qed

section \<open>Order of the signals\<close>

lemma sorted_all_equal: "\<forall>x \<in> set xs. x = c \<Longrightarrow> sorted xs"
  by (induction xs) auto

lemma sorted_concat_upt:
  fixes f :: "nat \<Rightarrow> int list"
  assumes "\<And>i. a \<le> i \<Longrightarrow> i < b \<Longrightarrow> \<forall>x \<in> set (f i). x = g i"
    and "\<And>i j. a \<le> i \<Longrightarrow> i \<le> j \<Longrightarrow> j < b \<Longrightarrow> g i \<le> g j"
  shows "sorted (concat (map f [a ..< b]))"
  using assms
proof (induction b)
  case 0
  show ?case by simp
next
  case (Suc b)
  show ?case
  proof (cases "a \<le> b")
    case False
    then show ?thesis by simp
  next
    case True
    have ih: "sorted (concat (map f [a ..< b]))"
      using Suc.prems by (intro Suc.IH) auto
    have last: "sorted (f b)"
      using Suc.prems(1) [of b] True by (intro sorted_all_equal [of _ "g b"]) simp
    have "x \<le> y" if x: "x \<in> set (concat (map f [a ..< b]))" and y: "y \<in> set (f b)" for x y
    proof -
      obtain i where i: "a \<le> i" "i < b" "x \<in> set (f i)" using x by auto
      have "x = g i" using Suc.prems(1) [of i] i by simp
      moreover have "y = g b" using Suc.prems(1) [of b] True y by simp
      moreover have "g i \<le> g b" using Suc.prems(2) [of i b] i by simp
      ultimately show ?thesis by simp
    qed
    then show ?thesis
      using True ih last by (simp add: sorted_append)
  qed
qed

text \<open>
  C5. For candles with strictly increasing times, the signals that \<open>detectBreakout\<close>
  returns are in non-decreasing order of time; they are the signals of the indices from
  the window on, in order; at one index the resistance signal, if any, comes before the
  support signal, if any; and signals of distinct indices have distinct times.
\<close>

theorem signals_in_time_order:
  assumes "sorted_wrt (<) (map KlineData.time candles)"
    and "detectBreakout candles period = Inr sigs"
  shows "sorted (map BreakoutSignal.time sigs) \<and>
         sigs = concat (map (emitted candles period) [nat period ..< length candles]) \<and>
         (\<forall>i < length candles. \<exists>rs ss.
            emitted candles period i = rs @ ss \<and> length rs \<le> 1 \<and> length ss \<le> 1 \<and>
            (\<forall>s \<in> set rs. type s = Resistance) \<and> (\<forall>s \<in> set ss. type s = Support)) \<and>
         (\<forall>i j s t. i < length candles \<and> j < length candles \<and> i \<noteq> j \<and>
            s \<in> set (emitted candles period i) \<and> t \<in> set (emitted candles period j) \<longrightarrow>
            BreakoutSignal.time s \<noteq> BreakoutSignal.time t)"
proof -
  have mono: "KlineData.time (candles ! i) < KlineData.time (candles ! j)"
    if "i < j" and "j < length candles" for i j
    using assms(1) that by (simp add: sorted_wrt_iff_nth_less)
  obtain w where w: "period = int w"
    using detectBreakout_Inr_nonneg [OF assms(2)] by (metis nat_0_le)
  have sigs: "sigs = concat (map (emitted candles period) [nat period ..< length candles])"
    using assms(2) by (simp add: w detectBreakout_nonneg)
  have "map BreakoutSignal.time sigs =
        concat (map (\<lambda>i. map BreakoutSignal.time (emitted candles period i))
                 [nat period ..< length candles])"
    by (simp add: sigs map_concat o_def)
  moreover have "sorted \<dots>"
  proof (rule sorted_concat_upt [where g = "\<lambda>i. KlineData.time (candles ! i)"])
    fix i assume "nat period \<le> i" "i < length candles"
    then show "\<forall>x \<in> set (map BreakoutSignal.time (emitted candles period i)).
                 x = KlineData.time (candles ! i)"
      using emitted_time_price by auto
  next
    fix i j assume "nat period \<le> i" "i \<le> j" "j < length candles"
    then show "KlineData.time (candles ! i) \<le> KlineData.time (candles ! j)"
      using mono [of i j] by (cases "i = j") simp_all
  qed
  ultimately have srt: "sorted (map BreakoutSignal.time sigs)" by simp
  have apart: "BreakoutSignal.time s \<noteq> BreakoutSignal.time t"
    if "i < length candles" "j < length candles" "i \<noteq> j"
      "s \<in> set (emitted candles period i)" "t \<in> set (emitted candles period j)" for i j s t
  proof -
    have "BreakoutSignal.time s = KlineData.time (candles ! i)"
      "BreakoutSignal.time t = KlineData.time (candles ! j)"
      using that emitted_time_price by blast+
    moreover have "KlineData.time (candles ! i) \<noteq> KlineData.time (candles ! j)"
      using mono [of i j] mono [of j i] that(1,2,3) by (cases "i < j") auto
    ultimately show ?thesis by simp
  qed
  show ?thesis
    using srt sigs emitted_shape apart by blast
qed

theorem signals_in_time_order_witness:
  "sorted_wrt (<) (map KlineData.time crossing) \<and>
   detectBreakout crossing 1 =
     Inr [\<lparr>time = 2, type = Resistance, price = 50, confirmed = True\<rparr>,
          \<lparr>time = 2, type = Support, price = 50, confirmed = True\<rparr>,
          \<lparr>time = 3, type = Resistance, price = 60, confirmed = True\<rparr>,
          \<lparr>time = 5, type = Support, price = 41, confirmed = True\<rparr>] \<and>
   sorted (map BreakoutSignal.time
         [\<lparr>time = 2, type = Resistance, price = 50, confirmed = True\<rparr>,
          \<lparr>time = 2, type = Support, price = 50, confirmed = True\<rparr>,
          \<lparr>time = 3, type = Resistance, price = 60, confirmed = True\<rparr>,
          \<lparr>time = 5, type = Support, price = 41, confirmed = True\<rparr>])"
proof -
  have t: "sorted_wrt (<) (map KlineData.time crossing)"
    by (simp add: crossing_def bar_def)
  have d: "detectBreakout crossing 1 =
     Inr [\<lparr>time = 2, type = Resistance, price = 50, confirmed = True\<rparr>,
          \<lparr>time = 2, type = Support, price = 50, confirmed = True\<rparr>,
          \<lparr>time = 3, type = Resistance, price = 60, confirmed = True\<rparr>,
          \<lparr>time = 5, type = Support, price = 41, confirmed = True\<rparr>]"
    by (rule crossing_detect)
  show ?thesis
    using signals_in_time_order [OF t d] t d by blast
qed

end
